theory Spec2Isabelle
  imports Complex_Main "HOL-Library.Word" "HOL-Library.Log_Nat"
begin

section \<open>Thread-colour extraction of \<^verbatim>\<open>render_cli.py\<close>\<close>

text \<open>
  The development embeds \<^verbatim>\<open>extract_thread_color_from_pattern\<close>
  (\<^verbatim>\<open>src/render_cli.py\<close>, lines 17 to 63).  The function opens a pattern image,
  converts it to RGBA, scans a rectangle near the top-right corner, and returns the most
  common colour among the pixels whose alpha exceeds 200, or, when there is none, the
  colour of one pixel of that corner.

  The argument of the embedded function is the image object after
  \<^verbatim>\<open>Image.open(pattern_path).convert("RGBA")\<close>: its size and its four-channel pixels.
  Opening and decoding the file are not part of the embedding.
\<close>

subsection \<open>Images and pixel access\<close>

text \<open>
  An RGBA pixel is a 4-tuple of 8-bit channels, as \<^verbatim>\<open>getpixel\<close> returns it; the colour
  collected by the scan is the 3-tuple \<^verbatim>\<open>(r, g, b)\<close>.
\<close>

type_synonym pixel = "8 word \<times> 8 word \<times> 8 word \<times> 8 word"

type_synonym rgb = "8 word \<times> 8 word \<times> 8 word"

text \<open>
  \<^verbatim>\<open>pil_image.size\<close> is the pair \<^verbatim>\<open>(width, height)\<close>; the pixel store is indexed by
  \<^verbatim>\<open>(x, y)\<close>.  Only the entries with \<open>0 \<le> x < width\<close> and \<open>0 \<le> y < height\<close> belong to the
  image; \<open>getpixel\<close> never reads another one.
\<close>

record image =
  width :: int
  height :: int
  pixels :: "int \<times> int \<Rightarrow> pixel"

datatype error = IndexError

text \<open>
  \<^verbatim>\<open>Image.getpixel\<close> of the imaging library: a negative coordinate counts from the far
  edge, and a coordinate that is still outside the image raises \<^verbatim>\<open>IndexError\<close>.
\<close>

definition getpixel :: "image \<Rightarrow> int \<times> int \<Rightarrow> error + pixel" where
  "getpixel im xy =
     (case xy of (x, y) \<Rightarrow>
        (let x' = (if x < 0 then width im + x else x);
             y' = (if y < 0 then height im + y else y)
         in if x' < 0 \<or> width im \<le> x' \<or> y' < 0 \<or> height im \<le> y'
            then Inl IndexError
            else Inr (pixels im (x', y'))))"

subsection \<open>Python primitives used by the function\<close>

text \<open>
  \<^verbatim>\<open>int(q)\<close> truncates towards zero.  The products \<^verbatim>\<open>width * 0.1\<close>, \<^verbatim>\<open>width * 0.9\<close> and
  \<^verbatim>\<open>height * 0.05\<close> are taken over the rationals.  Python computes them in binary64
  arithmetic; \<open>binary64_times\<close> below is that product, and lemma
  \<open>binary64_products\<close> shows that for every size below \<open>2\<^sup>3\<^sup>1\<close> (the imaging library
  stores a size in a 32-bit signed integer) the truncated binary64 product and the
  truncated exact product are the same integer.
\<close>

definition py_int :: "rat \<Rightarrow> int" where
  "py_int q = (if 0 \<le> q then \<lfloor>q\<rfloor> else \<lceil>q\<rceil>)"

text \<open>
  The binary64 product of an integer \<open>w\<close> with \<open>0 \<le> w < 2\<^sup>5\<^sup>3\<close> (its conversion to a float
  is exact) and a positive binary64 constant \<open>m / 2\<^sup>s\<close>: the exact product \<open>w * m / 2\<^sup>s\<close>
  rounded to 53 significant bits, a tie going to the even neighbour.
\<close>

definition round_half_even :: "int \<Rightarrow> nat \<Rightarrow> int" where
  "round_half_even p n =
     (let q = p div 2 ^ n; r = p mod 2 ^ n in
      if 2 * r < 2 ^ n then q
      else if 2 ^ n < 2 * r then q + 1
      else if even q then q else q + 1)"

definition binary64_times :: "int \<Rightarrow> int \<Rightarrow> nat \<Rightarrow> rat" where
  "binary64_times w m s =
     (let p = w * m; n = nat (bitlen p - 53)
      in of_int (round_half_even p n * 2 ^ n) / 2 ^ s)"

text \<open>\<^verbatim>\<open>range(n)\<close>: the integers from 0 to \<open>n - 1\<close>, none when \<open>n \<le> 0\<close>.\<close>

definition py_range :: "int \<Rightarrow> int list" where
  "py_range n = [0..n - 1]"

text \<open>
  The format specification \<^verbatim>\<open>02X\<close>: upper-case hexadecimal digits, most significant
  first, padded with zeros on the left to a width of at least two.
\<close>

definition hex_digits :: string where
  "hex_digits = ''0123456789ABCDEF''"

definition hex_digit :: "nat \<Rightarrow> char" where
  "hex_digit d = hex_digits ! d"

fun hex_upper :: "nat \<Rightarrow> string" where
  "hex_upper n =
     (if n < 16 then [hex_digit n] else hex_upper (n div 16) @ [hex_digit (n mod 16)])"

declare hex_upper.simps [simp del]

definition format_02X :: "nat \<Rightarrow> string" where
  "format_02X n = (let s = hex_upper n in replicate (2 - length s) (CHR ''0'') @ s)"

text \<open>The f-string \<^verbatim>\<open>f"#{r:02X}{g:02X}{b:02X}"\<close> of lines 54 and 61.\<close>

definition hex_color :: "rgb \<Rightarrow> string" where
  "hex_color c =
     (case c of (r, g, b) \<Rightarrow>
        ''#'' @ format_02X (unat r) @ format_02X (unat g) @ format_02X (unat b))"

text \<open>
  \<^verbatim>\<open>collections.Counter\<close> is a dictionary, and a dictionary keeps its keys in the order of
  their first insertion: an association list of keys and counts.  \<^verbatim>\<open>Counter(xs)\<close> counts
  the elements of \<open>xs\<close> from left to right.
\<close>

fun counter_incr :: "'a \<Rightarrow> ('a \<times> nat) list \<Rightarrow> ('a \<times> nat) list" where
  "counter_incr k [] = [(k, 1)]"
| "counter_incr k ((k', n) # kvs) =
     (if k = k' then (k', n + 1) # kvs else (k', n) # counter_incr k kvs)"

definition Counter :: "'a list \<Rightarrow> ('a \<times> nat) list" where
  "Counter xs = fold counter_incr xs []"

text \<open>
  \<^verbatim>\<open>most_common(1)\<close> is \<^verbatim>\<open>heapq.nlargest(1, items, key=count)\<close>, which for one element is
  \<^verbatim>\<open>max(items, key=count)\<close> in a list, or the empty list when there is no item.  Python's
  \<^verbatim>\<open>max\<close> replaces its candidate only by a strictly greater one.
\<close>

fun max_by_count :: "'a \<times> nat \<Rightarrow> ('a \<times> nat) list \<Rightarrow> 'a \<times> nat" where
  "max_by_count best [] = best"
| "max_by_count best (kv # kvs) = max_by_count (if snd best < snd kv then kv else best) kvs"

definition most_common_1 :: "('a \<times> nat) list \<Rightarrow> ('a \<times> nat) list" where
  "most_common_1 items = (case items of [] \<Rightarrow> [] | kv # kvs \<Rightarrow> [max_by_count kv kvs])"

subsection \<open>The sample rectangle (lines 30 to 33)\<close>

definition sample_width :: "image \<Rightarrow> int" where
  "sample_width im = max 1 (py_int (of_int (width im) * 0.1))"

definition sample_height :: "image \<Rightarrow> int" where
  "sample_height im = max 1 (py_int (of_int (height im) * 0.05))"

definition start_x :: "image \<Rightarrow> int" where
  "start_x im = max 0 (py_int (of_int (width im) * 0.9))"

definition start_y :: "image \<Rightarrow> int" where
  "start_y im = max 0 (py_int (of_int (height im) * 0.05))"

subsection \<open>The scan (lines 36 to 50)\<close>

text \<open>
  The objects the loops work on: the image, which is only read, and the list \<^verbatim>\<open>colors\<close>,
  which grows by \<^verbatim>\<open>append\<close>.  Every step takes the frame and returns the new one, or the
  exception raised.  The parameters \<open>sx0\<close>, \<open>sy0\<close>, \<open>sw\<close> and \<open>sh\<close> stand for the local
  variables \<^verbatim>\<open>start_x\<close>, \<^verbatim>\<open>start_y\<close>, \<^verbatim>\<open>sample_width\<close> and \<^verbatim>\<open>sample_height\<close>, and \<open>w\<close> for
  \<^verbatim>\<open>width\<close>; a loop over \<^verbatim>\<open>range(n)\<close> is a recursion over the list \<open>py_range n\<close>.
\<close>

record frame =
  pil_image :: image
  colors :: "rgb list"

definition loop_body :: "int \<Rightarrow> int \<Rightarrow> int \<Rightarrow> int \<Rightarrow> frame \<Rightarrow> error + frame" where
  "loop_body sx0 sy0 sy sx fr =
     (let x = sx0 + sx; y = sy0 + sy in
      case getpixel (pil_image fr) (x, y) of
        Inl e \<Rightarrow> Inl e
      | Inr (r, g, b, a) \<Rightarrow>
          if 200 < a then Inr (fr\<lparr>colors := colors fr @ [(r, g, b)]\<rparr>) else Inr fr)"

fun inner_loop :: "int \<Rightarrow> int \<Rightarrow> int \<Rightarrow> int list \<Rightarrow> frame \<Rightarrow> error + frame" where
  "inner_loop sx0 sy0 sy [] fr = Inr fr"
| "inner_loop sx0 sy0 sy (sx # sxs) fr =
     (case loop_body sx0 sy0 sy sx fr of
        Inl e \<Rightarrow> Inl e
      | Inr fr' \<Rightarrow> inner_loop sx0 sy0 sy sxs fr')"

fun outer_loop :: "int \<Rightarrow> int \<Rightarrow> int \<Rightarrow> int list \<Rightarrow> frame \<Rightarrow> error + frame" where
  "outer_loop sx0 sy0 sw [] fr = Inr fr"
| "outer_loop sx0 sy0 sw (sy # sys) fr =
     (case inner_loop sx0 sy0 sy (py_range sw) fr of
        Inl e \<Rightarrow> Inl e
      | Inr fr' \<Rightarrow> outer_loop sx0 sy0 sw sys fr')"

subsection \<open>The choice of the colour (lines 52 to 61)\<close>

text \<open>
  \<^verbatim>\<open>if colors:\<close> takes the first branch when the list is not empty.  Indexing the result
  of \<^verbatim>\<open>most_common(1)\<close> with \<^verbatim>\<open>[0]\<close> raises \<^verbatim>\<open>IndexError\<close> on an empty list.
\<close>

definition select_color :: "int \<Rightarrow> int \<Rightarrow> int \<Rightarrow> frame \<Rightarrow> error + string" where
  "select_color w sx0 sy0 fr =
     (if colors fr \<noteq> [] then
        (case most_common_1 (Counter (colors fr)) of
           [] \<Rightarrow> Inl IndexError
         | (most_common, n) # rest \<Rightarrow> Inr (hex_color most_common))
      else
        (let x = min (w - 1) sx0; y = sy0 in
         case getpixel (pil_image fr) (x, y) of
           Inl e \<Rightarrow> Inl e
         | Inr (r, g, b, a) \<Rightarrow> Inr (hex_color (r, g, b))))"

subsection \<open>The function\<close>

text \<open>
  Lines 36 to 63 for a given rectangle: the scan from the empty list, then the choice.
  The result is the returned string together with the final frame.
\<close>

definition extract_region :: "image \<Rightarrow> int \<Rightarrow> int \<Rightarrow> int \<Rightarrow> int \<Rightarrow> error + string \<times> frame" where
  "extract_region im sx0 sy0 sw sh =
     (case outer_loop sx0 sy0 sw (py_range sh) \<lparr>pil_image = im, colors = []\<rparr> of
        Inl e \<Rightarrow> Inl e
      | Inr fr \<Rightarrow>
          (case select_color (width im) sx0 sy0 fr of
             Inl e \<Rightarrow> Inl e
           | Inr hex \<Rightarrow> Inr (hex, fr)))"

definition run_extract :: "image \<Rightarrow> error + string \<times> frame" where
  "run_extract im =
     extract_region im (start_x im) (start_y im) (sample_width im) (sample_height im)"

definition extract_thread_color_from_pattern :: "image \<Rightarrow> error + string" where
  "extract_thread_color_from_pattern im =
     (case run_extract im of Inl e \<Rightarrow> Inl e | Inr (hex, fr) \<Rightarrow> Inr hex)"

section \<open>Notions used to state the properties\<close>

text \<open>
  The definitions of this section are not part of the program: they name what the
  properties speak about (the pixels of the sample rectangle in row-major order, the
  colours that pass the alpha test, the most frequent colour with its tie-break rule, the
  shape of the output string), and a few concrete images.
\<close>

subsection \<open>Pixels and coordinates\<close>

definition rgb_of :: "pixel \<Rightarrow> rgb" where
  "rgb_of p = (case p of (r, g, b, a) \<Rightarrow> (r, g, b))"

definition alpha_of :: "pixel \<Rightarrow> 8 word" where
  "alpha_of p = (case p of (r, g, b, a) \<Rightarrow> a)"

text \<open>The coordinates of the image: \<open>[0, width) \<times> [0, height)\<close>.\<close>

definition inside :: "image \<Rightarrow> int \<times> int \<Rightarrow> bool" where
  "inside im xy = (case xy of (x, y) \<Rightarrow> 0 \<le> x \<and> x < width im \<and> 0 \<le> y \<and> y < height im)"

text \<open>
  The coordinates of a rectangle in row-major order: the rows from top to bottom, each
  from left to right.  Lemma \<open>region_coords_nth\<close> gives the position of each coordinate
  in the list.
\<close>

definition region_coords :: "int \<Rightarrow> int \<Rightarrow> int \<Rightarrow> int \<Rightarrow> (int \<times> int) list" where
  "region_coords sx0 sy0 sw sh =
     concat (map (\<lambda>sy. map (\<lambda>sx. (sx0 + sx, sy0 + sy)) (py_range sw)) (py_range sh))"

definition sample_coords :: "image \<Rightarrow> (int \<times> int) list" where
  "sample_coords im = region_coords (start_x im) (start_y im) (sample_width im) (sample_height im)"

text \<open>
  The colours of the pixels at the coordinates \<open>cs\<close> whose alpha is greater than 200, in
  the order of \<open>cs\<close>.
\<close>

definition opaque_colors :: "image \<Rightarrow> (int \<times> int) list \<Rightarrow> rgb list" where
  "opaque_colors im cs = map rgb_of (filter (\<lambda>p. 200 < alpha_of p) (map (pixels im) cs))"

definition fallback_xy :: "image \<Rightarrow> int \<times> int" where
  "fallback_xy im = (min (width im - 1) (start_x im), start_y im)"

subsection \<open>The most frequent element\<close>

text \<open>The distinct elements of a list in the order of their first occurrences.\<close>

definition first_seen :: "'a list \<Rightarrow> 'a list" where
  "first_seen xs = rev (remdups (rev xs))"

text \<open>
  \<open>c\<close> occurs in \<open>xs\<close>, no element occurs more often, and every element before the first
  occurrence of \<open>c\<close> occurs strictly less often.
\<close>

definition most_frequent_first :: "'a list \<Rightarrow> 'a \<Rightarrow> bool" where
  "most_frequent_first xs c =
     (\<exists>pre post. xs = pre @ c # post \<and> c \<notin> set pre \<and>
        (\<forall>d\<in>set pre. count_list xs d < count_list xs c) \<and>
        (\<forall>d. count_list xs d \<le> count_list xs c))"

text \<open>The position of the first occurrence of \<open>x\<close> in \<open>xs\<close> (the length of \<open>xs\<close> if none).\<close>

definition first_index :: "'a list \<Rightarrow> 'a \<Rightarrow> nat" where
  "first_index xs x = length (takeWhile (\<lambda>y. y \<noteq> x) xs)"

text \<open>
  The selection as the specification words it: \<open>c\<close> is most frequent in \<open>xs\<close>, and among
  the elements that are equally frequent the first occurrence of \<open>c\<close> is the earliest.
\<close>

definition most_frequent_earliest :: "'a list \<Rightarrow> 'a \<Rightarrow> bool" where
  "most_frequent_earliest xs c =
     (c \<in> set xs \<and>
      (\<forall>d. count_list xs d \<le> count_list xs c) \<and>
      (\<forall>d. d \<noteq> c \<and> count_list xs d = count_list xs c \<longrightarrow> first_index xs c < first_index xs d))"

subsection \<open>The output string\<close>

text \<open>The strings matched by \<^verbatim>\<open>^#[0-9A-F]{6}$\<close>.\<close>

definition is_hex_color :: "string \<Rightarrow> bool" where
  "is_hex_color s =
     (length s = 7 \<and> hd s = CHR ''#'' \<and> (\<forall>c\<in>set (tl s). c \<in> set hex_digits))"

text \<open>
  The value of a hexadecimal digit (16 for any other character), and the colour that a
  string \<^verbatim>\<open>#RRGGBB\<close> encodes.
\<close>

definition hex_value :: "char \<Rightarrow> nat" where
  "hex_value c = length (takeWhile (\<lambda>d. d \<noteq> c) hex_digits)"

definition decode_hex_color :: "string \<Rightarrow> rgb option" where
  "decode_hex_color s =
     (case s of
        [h, r1, r0, g1, g0, b1, b0] \<Rightarrow>
          if h = CHR ''#'' \<and> (\<forall>c\<in>set [r1, r0, g1, g0, b1, b0]. hex_value c < 16)
          then Some (word_of_nat (16 * hex_value r1 + hex_value r0),
                     word_of_nat (16 * hex_value g1 + hex_value g0),
                     word_of_nat (16 * hex_value b1 + hex_value b0))
          else None
      | _ \<Rightarrow> None)"

subsection \<open>Concrete images\<close>

text \<open>
  A 100 by 100 image filled with \<open>(0, 127, 255, 255)\<close>, but for a 10 by 10 block of alpha 0
  away from the top-right corner.
\<close>

definition blue_100 :: image where
  "blue_100 =
     \<lparr>width = 100, height = 100,
      pixels = (\<lambda>(x, y). if 20 \<le> x \<and> x < 30 \<and> 40 \<le> y \<and> y < 50
                          then (0, 127, 255, 0) else (0, 127, 255, 255))\<rparr>"

text \<open>A fully transparent 50 by 50 image whose pixel \<open>(45, 2)\<close> is \<open>(10, 20, 30, 0)\<close>.\<close>

definition clear_50 :: image where
  "clear_50 =
     \<lparr>width = 50, height = 50,
      pixels = (\<lambda>xy. if xy = (45, 2) then (10, 20, 30, 0) else (0, 0, 0, 0))\<rparr>"

text \<open>
  Two opaque 20 by 20 images with a red column 18 and a blue column 19 in row 1; they
  differ elsewhere.
\<close>

definition tie_20 :: image where
  "tie_20 =
     \<lparr>width = 20, height = 20,
      pixels = (\<lambda>(x, y). if x = 18 then (255, 0, 0, 255) else (0, 0, 255, 255))\<rparr>"

definition tie_20_other :: image where
  "tie_20_other =
     \<lparr>width = 20, height = 20,
      pixels = (\<lambda>xy. if xy = (18, 1) then (255, 0, 0, 255)
                     else if xy = (19, 1) then (0, 0, 255, 255) else (7, 7, 7, 255))\<rparr>"

text \<open>
  1 by 1 images with the colour \<open>(1, 2, 3)\<close>: opaque, transparent, and opaque with other
  values in the entries of the pixel store that lie outside the image.
\<close>

definition opaque_1 :: image where
  "opaque_1 = \<lparr>width = 1, height = 1, pixels = (\<lambda>xy. (1, 2, 3, 255))\<rparr>"

definition clear_1 :: image where
  "clear_1 = \<lparr>width = 1, height = 1, pixels = (\<lambda>xy. (1, 2, 3, 0))\<rparr>"


section \<open>Auxiliary lemmas\<close>

subsection \<open>The binary64 products\<close>

lemma round_half_even_lower:
  assumes "j * 2 ^ n \<le> p"
  shows "j \<le> round_half_even p n"
proof -
  have "(j * 2 ^ n) div 2 ^ n \<le> p div 2 ^ n" using assms by (intro zdiv_mono1) simp_all
  then have "j \<le> p div 2 ^ n" by simp
  then show ?thesis by (auto simp: round_half_even_def Let_def)
qed

lemma round_half_even_upper:
  assumes "p \<le> j * 2 ^ n"
  shows "round_half_even p n \<le> j"
proof -
  have "p div 2 ^ n \<le> (j * 2 ^ n) div 2 ^ n" using assms by (intro zdiv_mono1) simp_all
  then have le: "p div 2 ^ n \<le> j" by simp
  show ?thesis
  proof (cases "p div 2 ^ n = j")
    case True
    have "p = 2 ^ n * (p div 2 ^ n) + p mod 2 ^ n" by simp
    then have "p mod 2 ^ n \<le> 0" using assms True by (simp add: mult.commute)
    moreover have "0 \<le> p mod (2 ^ n :: int)" by simp
    ultimately have "p mod 2 ^ n = 0" by simp
    then show ?thesis using True by (simp add: round_half_even_def Let_def)
  next
    case False
    then have "p div 2 ^ n + 1 \<le> j" using le by simp
    then show ?thesis by (auto simp: round_half_even_def Let_def)
  qed
qed

lemma binary64_times_int_part:
  assumes w: "0 \<le> w" "w < 2 ^ 31" and m: "0 < m" "m < 2 ^ 53" and s: "36 \<le> s"
    and b: "0 < b"
    and lo: "a * 2 ^ s \<le> b * m"
    and hi: "32 * (b - 1) * 2 ^ s + 32 * 2 ^ 31 * (b * m - a * 2 ^ s) \<le> 31 * b * 2 ^ s"
  shows "\<lfloor>binary64_times w m s\<rfloor> = (w * a) div b"
proof -
  define k where "k = (w * a) div b"
  define p where "p = w * m"
  define n where "n = nat (bitlen p - 53)"
  define R where "R = round_half_even p n"
  define S :: int where "S = 2 ^ s"
  have S: "0 < S" by (simp add: S_def)
  have kb: "b * k \<le> w * a" "w * a \<le> b * k + (b - 1)"
  proof -
    have "w * a = b * k + (w * a) mod b" by (simp add: k_def)
    moreover have "0 \<le> (w * a) mod b" "(w * a) mod b < b" using b by simp_all
    ultimately show "b * k \<le> w * a" "w * a \<le> b * k + (b - 1)" by linarith+
  qed
  \<comment> \<open>the exact product lies between \<open>k\<close> and \<open>k + 31 / 32\<close>\<close>
  have "b * (k * S) \<le> (w * a) * S" using kb(1) S by (simp add: mult.assoc [symmetric])
  also have "\<dots> = w * (a * S)" by simp
  also have "\<dots> \<le> w * (b * m)" using lo w(1) unfolding S_def by (intro mult_left_mono)
  finally have "b * (k * S) \<le> b * p" by (simp add: p_def mult.left_commute)
  then have low: "k * S \<le> p" using b by simp
  have D: "0 \<le> b * m - a * S" using lo by (simp add: S_def)
  have "b * (32 * p) = 32 * ((w * a) * S) + 32 * (w * (b * m - a * S))"
    by (simp add: p_def algebra_simps)
  also have "\<dots> \<le> 32 * ((b * k + (b - 1)) * S) + 32 * (2 ^ 31 * (b * m - a * S))"
  proof -
    have "(w * a) * S \<le> (b * k + (b - 1)) * S" using kb(2) S by (intro mult_right_mono) simp_all
    moreover have "w * (b * m - a * S) \<le> 2 ^ 31 * (b * m - a * S)"
      using w(2) D by (intro mult_right_mono) simp_all
    ultimately show ?thesis by linarith
  qed
  also have "\<dots> = 32 * (b * k) * S + (32 * (b - 1) * S + 32 * 2 ^ 31 * (b * m - a * S))"
    by (simp add: algebra_simps)
  also have "\<dots> \<le> 32 * (b * k) * S + 31 * b * S" using hi by (simp add: S_def)
  also have "\<dots> = b * ((32 * k + 31) * S)" by (simp add: algebra_simps)
  finally have "32 * p \<le> (32 * k + 31) * S" using b by simp
  \<comment> \<open>at most 31 bits are rounded away\<close>
  have "p < 2 ^ 31 * 2 ^ 53"
  proof (cases "w = 0")
    case True
    then show ?thesis by (simp add: p_def)
  next
    case False
    then have "w * m < w * 2 ^ 53" using w(1) m(2) by (intro mult_strict_left_mono) simp_all
    also have "\<dots> \<le> 2 ^ 31 * 2 ^ 53" using w(2) by (intro mult_right_mono) simp_all
    finally show ?thesis by (simp add: p_def)
  qed
  then have "p < 2 ^ nat 84" by simp
  then have "bitlen p \<le> 84" by (simp add: bitlen_le_iff_power)
  then have n: "n \<le> 31" by (simp add: n_def)
  then have sn: "s = (s - 5 - n) + 5 + n" using s by simp
  define T :: int where "T = 2 ^ (s - 5 - n)"
  have ST: "S = T * 32 * 2 ^ n"
    unfolding S_def T_def by (subst sn) (simp add: power_add)
  have "(k * (T * 32)) * 2 ^ n \<le> p" using low by (simp add: ST mult.assoc)
  then have Rlow: "k * (T * 32) \<le> R" unfolding R_def by (rule round_half_even_lower)
  have "32 * p \<le> 32 * (((32 * k + 31) * T) * 2 ^ n)"
    using \<open>32 * p \<le> (32 * k + 31) * S\<close> by (simp add: ST algebra_simps)
  then have "p \<le> ((32 * k + 31) * T) * 2 ^ n" by simp
  then have Rup: "R \<le> (32 * k + 31) * T" unfolding R_def by (rule round_half_even_upper)
  have T: "0 < T" by (simp add: T_def)
  have X1: "k * S \<le> R * 2 ^ n"
  proof -
    have "k * S = (k * (T * 32)) * 2 ^ n" by (simp add: ST)
    also have "\<dots> \<le> R * 2 ^ n" using Rlow by (intro mult_right_mono) simp_all
    finally show ?thesis .
  qed
  have X2: "R * 2 ^ n < (k + 1) * S"
  proof -
    have "R * 2 ^ n \<le> ((32 * k + 31) * T) * 2 ^ n" using Rup by (intro mult_right_mono) simp_all
    also have "\<dots> < ((32 * k + 32) * T) * 2 ^ n" using T by simp
    also have "\<dots> = (k + 1) * S" by (simp add: ST algebra_simps)
    finally show ?thesis .
  qed
  have "(R * 2 ^ n) div S = k"
  proof (rule int_div_pos_eq)
    show "R * 2 ^ n = S * k + (R * 2 ^ n - k * S)" by simp
    show "0 \<le> R * 2 ^ n - k * S" using X1 by simp
    show "R * 2 ^ n - k * S < S" using X2 by (simp add: algebra_simps)
  qed
  moreover have "binary64_times w m s = of_int (R * 2 ^ n) / of_int S"
    by (simp add: binary64_times_def Let_def R_def n_def p_def S_def)
  ultimately show ?thesis unfolding k_def by (simp only: floor_divide_of_int_eq)
qed

lemma py_int_frac:
  assumes "0 \<le> n" "0 \<le> a" "0 < b"
  shows "py_int (of_int n * (of_int a / of_int b)) = (n * a) div b"
proof -
  have e: "(of_int n * (of_int a / of_int b) :: rat) = of_int (n * a) / of_int b" by simp
  have "0 \<le> (of_int (n * a) / of_int b :: rat)" using assms by simp
  then show ?thesis unfolding e py_int_def by (simp only: if_True floor_divide_of_int_eq)
qed

text \<open>
  The binary64 constants written \<^verbatim>\<open>0.1\<close>, \<^verbatim>\<open>0.9\<close> and \<^verbatim>\<open>0.05\<close> are
  \<open>3602879701896397 / 2\<^sup>5\<^sup>5\<close>, \<open>8106479329266893 / 2\<^sup>5\<^sup>3\<close> and \<open>3602879701896397 / 2\<^sup>5\<^sup>6\<close>:
  the multiples of \<open>2\<^sup>-\<^sup>5\<^sup>6\<close>, \<open>2\<^sup>-\<^sup>5\<^sup>3\<close> and \<open>2\<^sup>-\<^sup>5\<^sup>7\<close> nearest to the decimal values (within half
  a unit), with 53-bit numerators.
\<close>

lemma binary64_constants:
  "2 * \<bar>10 * (2 * 3602879701896397) - 1 * 2 ^ 56\<bar> \<le> (10 :: int)"
  "2 * \<bar>10 * 8106479329266893 - 9 * 2 ^ 53\<bar> \<le> (10 :: int)"
  "2 * \<bar>20 * (2 * 3602879701896397) - 1 * 2 ^ 57\<bar> \<le> (20 :: int)"
  "(2 :: int) ^ 52 \<le> 2 * 3602879701896397 \<and> 2 * 3602879701896397 < (2 :: int) ^ 53"
  "(2 :: int) ^ 52 \<le> 8106479329266893 \<and> 8106479329266893 < (2 :: int) ^ 53"
  by simp_all

lemma binary64_products:
  assumes "0 \<le> w" "w < 2 ^ 31"
  shows "py_int (binary64_times w 3602879701896397 55) = py_int (of_int w * 0.1)"
    and "py_int (binary64_times w 8106479329266893 53) = py_int (of_int w * 0.9)"
    and "py_int (binary64_times w 3602879701896397 56) = py_int (of_int w * 0.05)"
proof -
  have t: "py_int (binary64_times w m s) = py_int (of_int w * (of_int a / of_int b))"
    if "0 < m" "m < 2 ^ 53" "36 \<le> s" "0 < b" "0 \<le> a" "a * 2 ^ s \<le> b * m"
      "32 * (b - 1) * 2 ^ s + 32 * 2 ^ 31 * (b * m - a * 2 ^ s) \<le> 31 * b * 2 ^ s"
    for m s a b
  proof -
    have f: "\<lfloor>binary64_times w m s\<rfloor> = (w * a) div b"
      using assms that(1,2,3,4,6,7) by (rule binary64_times_int_part)
    have "0 \<le> (w * a) div b" using assms(1) that(4,5) by (simp add: pos_imp_zdiv_nonneg_iff)
    then have "0 \<le> binary64_times w m s" using f by (simp flip: zero_le_floor)
    then have "py_int (binary64_times w m s) = (w * a) div b" by (simp add: py_int_def f)
    then show ?thesis using py_int_frac [OF assms(1) that(5,4)] by simp
  qed
  show "py_int (binary64_times w 3602879701896397 55) = py_int (of_int w * 0.1)"
    using t [of 3602879701896397 55 10 1] by simp
  show "py_int (binary64_times w 8106479329266893 53) = py_int (of_int w * 0.9)"
    using t [of 8106479329266893 53 10 9] by simp
  show "py_int (binary64_times w 3602879701896397 56) = py_int (of_int w * 0.05)"
    using t [of 3602879701896397 56 20 1] by simp
qed

text \<open>
  Hence the rectangle of the embedding is the rectangle that the binary64 arithmetic of
  lines 30 to 33 computes, for every size the imaging library can hold.
\<close>

lemma sample_rectangle_binary64:
  assumes "0 \<le> width im" "width im < 2 ^ 31" "0 \<le> height im" "height im < 2 ^ 31"
  shows "sample_width im = max 1 (py_int (binary64_times (width im) 3602879701896397 55))"
    and "sample_height im = max 1 (py_int (binary64_times (height im) 3602879701896397 56))"
    and "start_x im = max 0 (py_int (binary64_times (width im) 8106479329266893 53))"
    and "start_y im = max 0 (py_int (binary64_times (height im) 3602879701896397 56))"
  using binary64_products [OF assms(1,2)] binary64_products [OF assms(3,4)]
  by (simp_all add: sample_width_def sample_height_def start_x_def start_y_def)

subsection \<open>The sample rectangle\<close>

lemma sample_width_eq: "0 \<le> width im \<Longrightarrow> sample_width im = max 1 (width im div 10)"
  using py_int_frac [of "width im" 1 10] by (simp add: sample_width_def)

lemma sample_height_eq: "0 \<le> height im \<Longrightarrow> sample_height im = max 1 (height im div 20)"
  using py_int_frac [of "height im" 1 20] by (simp add: sample_height_def)

lemma start_x_eq: "0 \<le> width im \<Longrightarrow> start_x im = (width im * 9) div 10"
  using py_int_frac [of "width im" 9 10] by (simp add: start_x_def)

lemma start_y_eq: "0 \<le> height im \<Longrightarrow> start_y im = height im div 20"
  using py_int_frac [of "height im" 1 20] by (simp add: start_y_def)

lemma rect_x_bounds:
  assumes "0 < width im"
  shows "1 \<le> sample_width im" "0 \<le> start_x im" "start_x im + sample_width im \<le> width im"
  using assms by (simp_all add: sample_width_eq start_x_eq) 

lemma rect_y_bounds:
  assumes "0 < height im"
  shows "1 \<le> sample_height im" "0 \<le> start_y im" "start_y im + sample_height im \<le> height im"
  using assms by (simp_all add: sample_height_eq start_y_eq)

subsection \<open>The scan of a rectangle inside the image\<close>

lemma set_py_range: "set (py_range n) = {0..<n}"
  by (auto simp: py_range_def)

lemma set_region_coords:
  "set (region_coords sx0 sy0 sw sh) =
     {(x, y). sx0 \<le> x \<and> x < sx0 + sw \<and> sy0 \<le> y \<and> y < sy0 + sh}"
proof -
  have "(x, y) \<in> set (region_coords sx0 sy0 sw sh) \<longleftrightarrow>
          sx0 \<le> x \<and> x < sx0 + sw \<and> sy0 \<le> y \<and> y < sy0 + sh" for x y
  proof -
    have "(x, y) \<in> set (region_coords sx0 sy0 sw sh) \<longleftrightarrow>
            (\<exists>sy\<in>{0..<sh}. \<exists>sx\<in>{0..<sw}. x = sx0 + sx \<and> y = sy0 + sy)"
      by (auto simp: region_coords_def set_py_range)
    also have "\<dots> \<longleftrightarrow> (x - sx0 \<in> {0..<sw} \<and> y - sy0 \<in> {0..<sh})"
      by (auto intro: bexI [of _ "y - sy0"] bexI [of _ "x - sx0"])
    finally show ?thesis by auto
  qed
  then show ?thesis by auto
qed

lemma getpixel_inside: "inside im (x, y) \<Longrightarrow> getpixel im (x, y) = Inr (pixels im (x, y))"
  by (auto simp: getpixel_def inside_def Let_def)

lemma loop_body_inside:
  assumes "inside (pil_image fr) (sx0 + sx, sy0 + sy)"
  shows "loop_body sx0 sy0 sy sx fr =
           Inr (fr\<lparr>colors := colors fr @ opaque_colors (pil_image fr) [(sx0 + sx, sy0 + sy)]\<rparr>)"
  using getpixel_inside [OF assms]
  by (cases "pixels (pil_image fr) (sx0 + sx, sy0 + sy)")
     (simp add: loop_body_def opaque_colors_def rgb_of_def alpha_of_def)

lemma inner_loop_inside:
  assumes "\<forall>sx\<in>set sxs. inside (pil_image fr) (sx0 + sx, sy0 + sy)"
  shows "inner_loop sx0 sy0 sy sxs fr =
           Inr (fr\<lparr>colors := colors fr @
                  opaque_colors (pil_image fr) (map (\<lambda>sx. (sx0 + sx, sy0 + sy)) sxs)\<rparr>)"
  using assms
proof (induction sxs arbitrary: fr)
  case Nil
  then show ?case by (simp add: opaque_colors_def)
next
  case (Cons sx sxs)
  then show ?case by (simp add: loop_body_inside opaque_colors_def)
qed

lemma outer_loop_inside:
  assumes "\<forall>sy\<in>set sys. \<forall>sx\<in>set (py_range sw). inside (pil_image fr) (sx0 + sx, sy0 + sy)"
  shows "outer_loop sx0 sy0 sw sys fr =
           Inr (fr\<lparr>colors := colors fr @
                  opaque_colors (pil_image fr)
                    (concat (map (\<lambda>sy. map (\<lambda>sx. (sx0 + sx, sy0 + sy)) (py_range sw)) sys))\<rparr>)"
  using assms
proof (induction sys arbitrary: fr)
  case Nil
  then show ?case by (simp add: opaque_colors_def)
next
  case (Cons sy sys)
  then show ?case by (simp add: inner_loop_inside opaque_colors_def)
qed

lemma region_inside:
  assumes "0 \<le> sx0" "sx0 + sw \<le> width im" "0 \<le> sy0" "sy0 + sh \<le> height im"
  shows "\<forall>sy\<in>set (py_range sh). \<forall>sx\<in>set (py_range sw). inside im (sx0 + sx, sy0 + sy)"
  using assms by (auto simp: set_py_range inside_def)

lemma scan_region:
  assumes "0 \<le> sx0" "sx0 + sw \<le> width im" "0 \<le> sy0" "sy0 + sh \<le> height im"
  shows "outer_loop sx0 sy0 sw (py_range sh) \<lparr>pil_image = im, colors = []\<rparr> =
           Inr \<lparr>pil_image = im, colors = opaque_colors im (region_coords sx0 sy0 sw sh)\<rparr>"
  using region_inside [OF assms]
  by (simp add: outer_loop_inside region_coords_def)

lemma fallback_inside:
  assumes "0 < width im" "0 < height im"
  shows "inside im (fallback_xy im)"
  using rect_x_bounds [OF assms(1)] rect_y_bounds [OF assms(2)]
  by (simp add: inside_def fallback_xy_def)

subsection \<open>The traversal is row-major\<close>

lemma concat_nth_rows:
  assumes "\<forall>r\<in>set rows. length r = n" "i < length rows" "j < n"
  shows "concat rows ! (i * n + j) = rows ! i ! j"
  using assms
proof (induction rows arbitrary: i)
  case Nil
  then show ?case by simp
next
  case (Cons r rows)
  show ?case
  proof (cases i)
    case 0
    then show ?thesis using Cons.prems by (simp add: nth_append)
  next
    case (Suc i')
    then have "concat rows ! (i' * n + j) = rows ! i' ! j" using Cons by simp
    moreover have "length r = n" using Cons.prems(1) by simp
    ultimately show ?thesis using Suc by (simp add: nth_append)
  qed
qed

lemma length_py_range: "length (py_range n) = nat n"
  by (simp add: py_range_def)

lemma py_range_nth: "0 \<le> i \<Longrightarrow> i < n \<Longrightarrow> py_range n ! nat i = i"
  by (simp add: py_range_def)

lemma region_coords_length: "0 \<le> sw \<Longrightarrow> 0 \<le> sh \<Longrightarrow> length (region_coords sx0 sy0 sw sh) = nat (sh * sw)"
  by (simp add: region_coords_def length_concat comp_def length_py_range sum_list_triv nat_mult_distrib)

lemma region_coords_nth:
  assumes "0 \<le> sx" "sx < sw" "0 \<le> sy" "sy < sh"
  shows "region_coords sx0 sy0 sw sh ! nat (sy * sw + sx) = (sx0 + sx, sy0 + sy)"
proof -
  let ?rows = "map (\<lambda>sy. map (\<lambda>sx. (sx0 + sx, sy0 + sy)) (py_range sw)) (py_range sh)"
  have i: "nat (sy * sw + sx) = nat sy * nat sw + nat sx"
    using assms by (simp add: nat_add_distrib nat_mult_distrib)
  have "concat ?rows ! (nat sy * nat sw + nat sx) = ?rows ! nat sy ! nat sx"
    using assms by (intro concat_nth_rows) (auto simp: length_py_range)
  also have "\<dots> = (sx0 + sx, sy0 + sy)"
    using assms by (simp add: length_py_range py_range_nth)
  finally show ?thesis by (simp add: region_coords_def i)
qed

subsection \<open>\<^verbatim>\<open>Counter\<close> and \<^verbatim>\<open>most_common(1)\<close>\<close>

lemma first_seen_snoc:
  "first_seen (xs @ [x]) = (if x \<in> set xs then first_seen xs else first_seen xs @ [x])"
  by (simp add: first_seen_def)

lemma set_first_seen: "set (first_seen xs) = set xs"
  by (simp add: first_seen_def)

lemma distinct_first_seen: "distinct (first_seen xs)"
  by (simp add: first_seen_def)

lemma counter_incr_map:
  assumes "distinct ks"
  shows "counter_incr x (map (\<lambda>k. (k, f k)) ks) =
           (if x \<in> set ks then map (\<lambda>k. (k, if k = x then f k + 1 else f k)) ks
            else map (\<lambda>k. (k, f k)) ks @ [(x, 1)])"
  using assms by (induction ks) auto

lemma Counter_snoc: "Counter (xs @ [x]) = counter_incr x (Counter xs)"
  by (simp add: Counter_def)

lemma Counter_eq: "Counter xs = map (\<lambda>k. (k, count_list xs k)) (first_seen xs)"
proof (induction xs rule: rev_induct)
  case Nil
  show ?case by (simp add: Counter_def first_seen_def)
next
  case (snoc x xs)
  show ?case
  proof (cases "x \<in> set xs")
    case True
    then show ?thesis
      by (simp add: Counter_snoc snoc counter_incr_map distinct_first_seen set_first_seen
                    first_seen_snoc)
  next
    case False
    then show ?thesis
      by (auto simp: Counter_snoc snoc counter_incr_map distinct_first_seen set_first_seen
                    first_seen_snoc)
  qed
qed

lemma max_by_count_split:
  "\<exists>pre c post. b # ks = pre @ c # post \<and>
      max_by_count (b, f b) (map (\<lambda>k. (k, f k)) ks) = (c, f c) \<and>
      (\<forall>k\<in>set pre. f k < f c) \<and> (\<forall>k\<in>set post. f k \<le> f c)"
proof (induction ks arbitrary: b)
  case Nil
  have "[b] = [] @ b # [] \<and> max_by_count (b, f b) (map (\<lambda>k. (k, f k)) []) = (b, f b) \<and>
      (\<forall>k\<in>set []. f k < f b) \<and> (\<forall>k\<in>set []. f k \<le> f b)" by simp
  then show ?case by blast
next
  case (Cons k ks)
  show ?case
  proof (cases "f b < f k")
    case True
    from Cons [of k] obtain pre c post where
      s: "k # ks = pre @ c # post" and
      m: "max_by_count (k, f k) (map (\<lambda>k. (k, f k)) ks) = (c, f c)" and
      lt: "\<forall>j\<in>set pre. f j < f c" and le: "\<forall>j\<in>set post. f j \<le> f c"
      by blast
    have "k \<in> set (pre @ c # post)" using s by (metis list.set_intros(1))
    then have "f k \<le> f c" using lt le by auto
    then have bc: "f b < f c" using True by simp
    have s': "b # k # ks = (b # pre) @ c # post" using s by simp
    have m': "max_by_count (b, f b) (map (\<lambda>k. (k, f k)) (k # ks)) = (c, f c)"
      using m True by simp
    have lt': "\<forall>j\<in>set (b # pre). f j < f c" using lt bc by simp
    from s' m' lt' le show ?thesis by blast
  next
    case False
    from Cons [of b] obtain pre c post where
      s: "b # ks = pre @ c # post" and
      m: "max_by_count (b, f b) (map (\<lambda>k. (k, f k)) ks) = (c, f c)" and
      lt: "\<forall>j\<in>set pre. f j < f c" and le: "\<forall>j\<in>set post. f j \<le> f c"
      by blast
    have m': "max_by_count (b, f b) (map (\<lambda>k. (k, f k)) (k # ks)) = (c, f c)"
      using m False by simp
    show ?thesis
    proof (cases pre)
      case Nil
      then have bc: "b = c" and ks: "ks = post" using s by auto
      have s': "b # k # ks = [] @ c # (k # post)" using bc ks by simp
      have le': "\<forall>j\<in>set (k # post). f j \<le> f c" using le False bc by auto
      have lt': "\<forall>j\<in>set []. f j < f c" by simp
      from s' m' lt' le' show ?thesis by blast
    next
      case (Cons p pre')
      then have pb: "p = b" and ks: "ks = pre' @ c # post" using s by auto
      have bc: "f b < f c" using lt Cons pb by simp
      have s': "b # k # ks = (b # k # pre') @ c # post" using ks by simp
      have lt': "\<forall>j\<in>set (b # k # pre'). f j < f c" using lt Cons pb bc False by auto
      from s' m' lt' le show ?thesis by blast
    qed
  qed
qed

lemma first_seen_split:
  assumes "first_seen xs = kpre @ c # kpost"
  shows "\<exists>pre post. xs = pre @ c # post \<and> c \<notin> set pre \<and> set pre = set kpre"
  using assms
proof (induction xs arbitrary: kpost rule: rev_induct)
  case Nil
  then show ?case by (simp add: first_seen_def)
next
  case (snoc x xs)
  show ?case
  proof (cases "x \<in> set xs")
    case True
    then have "first_seen xs = kpre @ c # kpost" using snoc.prems by (simp add: first_seen_snoc)
    from snoc.IH [OF this] obtain pre post where
      "xs = pre @ c # post" "c \<notin> set pre" "set pre = set kpre" by blast
    then have "xs @ [x] = pre @ c # (post @ [x]) \<and> c \<notin> set pre \<and> set pre = set kpre" by simp
    then show ?thesis by blast
  next
    case False
    then have e: "first_seen xs @ [x] = kpre @ c # kpost"
      using snoc.prems by (simp add: first_seen_snoc)
    show ?thesis
    proof (cases kpost rule: rev_cases)
      case Nil
      then have "first_seen xs = kpre" "x = c" using e by auto
      then have "xs @ [x] = xs @ c # [] \<and> c \<notin> set xs \<and> set xs = set kpre"
        using False set_first_seen [of xs] by auto
      then show ?thesis by blast
    next
      case (snoc kpost' y)
      then have "first_seen xs = kpre @ c # kpost'" using e by auto
      from snoc.IH [OF this] obtain pre post where
        "xs = pre @ c # post" "c \<notin> set pre" "set pre = set kpre" by blast
      then have "xs @ [x] = pre @ c # (post @ [x]) \<and> c \<notin> set pre \<and> set pre = set kpre" by simp
      then show ?thesis by blast
    qed
  qed
qed

lemma most_common_1_Counter:
  assumes "xs \<noteq> []"
  shows "\<exists>c. most_common_1 (Counter xs) = [(c, count_list xs c)] \<and> most_frequent_first xs c"
proof -
  from assms have "first_seen xs \<noteq> []" using set_first_seen [of xs] by auto
  then obtain b ks where bk: "first_seen xs = b # ks" by (cases "first_seen xs") auto
  from max_by_count_split [of b ks "count_list xs"] obtain pre c post where
    s: "b # ks = pre @ c # post" and
    m: "max_by_count (b, count_list xs b) (map (\<lambda>k. (k, count_list xs k)) ks) = (c, count_list xs c)" and
    lt: "\<forall>j\<in>set pre. count_list xs j < count_list xs c" and
    le: "\<forall>j\<in>set post. count_list xs j \<le> count_list xs c"
    by blast
  have mc: "most_common_1 (Counter xs) = [(c, count_list xs c)]"
    by (simp add: Counter_eq bk most_common_1_def m)
  have fs: "first_seen xs = pre @ c # post" using bk s by simp
  from first_seen_split [OF fs] obtain p q where
    pq: "xs = p @ c # q" "c \<notin> set p" "set p = set pre" by blast
  have all: "count_list xs d \<le> count_list xs c" for d
  proof (cases "d \<in> set xs")
    case True
    then have "d \<in> set (pre @ c # post)" using fs set_first_seen [of xs] by metis
    then show ?thesis using lt le by auto
  next
    case False
    then show ?thesis by (simp add: count_list_0_iff)
  qed
  have "most_frequent_first xs c"
    unfolding most_frequent_first_def using pq lt all by blast
  with mc show ?thesis by blast
qed

lemma first_index_split: "c \<notin> set pre \<Longrightarrow> first_index (pre @ c # post) c = length pre"
  by (induction pre) (auto simp: first_index_def)

lemma first_index_beyond: "d \<notin> set pre \<Longrightarrow> d \<noteq> c \<Longrightarrow> length pre < first_index (pre @ c # post) d"
  by (induction pre) (auto simp: first_index_def)

lemma most_frequent_first_earliest:
  assumes "most_frequent_first xs c"
  shows "most_frequent_earliest xs c"
proof -
  from assms obtain pre post where
    s: "xs = pre @ c # post" and n: "c \<notin> set pre" and
    lt: "\<forall>d\<in>set pre. count_list xs d < count_list xs c" and
    le: "\<forall>d. count_list xs d \<le> count_list xs c"
    unfolding most_frequent_first_def by blast
  have "first_index xs c < first_index xs d" if "d \<noteq> c" "count_list xs d = count_list xs c" for d
  proof -
    have "d \<notin> set pre" using lt that(2) by auto
    then show ?thesis using first_index_split [OF n] first_index_beyond [OF _ that(1)] s by metis
  qed
  moreover have "c \<in> set xs" using s by simp
  ultimately show ?thesis unfolding most_frequent_earliest_def using le by blast
qed

lemma most_frequent_earliest_unique:
  assumes "most_frequent_earliest xs c" "most_frequent_earliest xs d"
  shows "c = d"
proof (rule ccontr)
  assume ne: "c \<noteq> d"
  have "count_list xs c = count_list xs d"
    using assms unfolding most_frequent_earliest_def by (meson le_antisym)
  then have "first_index xs c < first_index xs d" "first_index xs d < first_index xs c"
    using assms ne unfolding most_frequent_earliest_def by metis+
  then show False by simp
qed

subsection \<open>Hexadecimal encoding of a colour\<close>

lemma below_16_cases:
  "(d::nat) < 16 \<Longrightarrow> d = 0 \<or> d = 1 \<or> d = 2 \<or> d = 3 \<or> d = 4 \<or> d = 5 \<or> d = 6 \<or> d = 7 \<or>
     d = 8 \<or> d = 9 \<or> d = 10 \<or> d = 11 \<or> d = 12 \<or> d = 13 \<or> d = 14 \<or> d = 15"
  by arith

lemma hex_digit_in_set: "d < 16 \<Longrightarrow> hex_digit d \<in> set hex_digits"
  unfolding hex_digit_def by (rule nth_mem) (simp add: hex_digits_def)

lemma hex_value_digit: "d < 16 \<Longrightarrow> hex_value (hex_digit d) = d"
  using below_16_cases [of d] by (auto simp: hex_value_def hex_digit_def hex_digits_def)

lemma format_02X_byte:
  assumes "n < 256"
  shows "format_02X n = [hex_digit (n div 16), hex_digit (n mod 16)]"
proof (cases "n < 16")
  case True
  then show ?thesis by (simp add: format_02X_def hex_upper.simps [of n] hex_digit_def hex_digits_def)
next
  case False
  have "n div 16 < 16" using assms by simp
  then show ?thesis using False
    by (simp add: format_02X_def hex_upper.simps [of n] hex_upper.simps [of "n div 16"])
qed

lemma unat_byte: "unat (b :: 8 word) < 256"
  using unsigned_less [of b] by simp

lemma hex_color_digits:
  "hex_color (r, g, b) =
     [CHR ''#'', hex_digit (unat r div 16), hex_digit (unat r mod 16),
      hex_digit (unat g div 16), hex_digit (unat g mod 16),
      hex_digit (unat b div 16), hex_digit (unat b mod 16)]"
  by (simp add: hex_color_def format_02X_byte unat_byte)

lemma byte_div_16: "unat (b :: 8 word) div 16 < 16"
  using unat_byte [of b] by simp

lemma is_hex_color_hex_color: "is_hex_color (hex_color c)"
  by (cases c) (simp add: hex_color_digits is_hex_color_def hex_digit_in_set byte_div_16)

lemma byte_recombine: "word_of_nat (16 * (unat b div 16) + unat b mod 16) = (b :: 8 word)"
  by simp

lemma decode_hex_color_hex_color: "decode_hex_color (hex_color c) = Some c"
  by (cases c) (simp add: hex_color_digits decode_hex_color_def hex_value_digit byte_div_16)

subsection \<open>The result on an image of positive size\<close>

lemma scan_sample:
  assumes "0 < width im" "0 < height im"
  shows "outer_loop (start_x im) (start_y im) (sample_width im) (py_range (sample_height im))
           \<lparr>pil_image = im, colors = []\<rparr> =
         Inr \<lparr>pil_image = im, colors = opaque_colors im (sample_coords im)\<rparr>"
  unfolding sample_coords_def
  using rect_x_bounds [OF assms(1)] rect_y_bounds [OF assms(2)]
  by (intro scan_region) simp_all

lemma sample_coords_inside:
  assumes "0 < width im" "0 < height im"
  shows "\<forall>xy\<in>set (sample_coords im). inside im xy"
  using region_inside [of "start_x im" "sample_width im" im "start_y im" "sample_height im"]
    rect_x_bounds [OF assms(1)] rect_y_bounds [OF assms(2)]
  by (auto simp: sample_coords_def region_coords_def)

lemma select_color_counted:
  assumes "colors fr \<noteq> []"
  shows "\<exists>c. select_color w sx0 sy0 fr = Inr (hex_color c) \<and>
             most_frequent_earliest (colors fr) c"
proof -
  from most_common_1_Counter [OF assms] obtain c where
    m: "most_common_1 (Counter (colors fr)) = [(c, count_list (colors fr) c)]" and
    f: "most_frequent_first (colors fr) c" by blast
  have "select_color w sx0 sy0 fr = Inr (hex_color c)"
    using assms by (simp add: select_color_def m)
  with most_frequent_first_earliest [OF f] show ?thesis by blast
qed

lemma select_color_fallback:
  assumes "colors fr = []" "inside (pil_image fr) (min (w - 1) sx0, sy0)"
  shows "select_color w sx0 sy0 fr =
           Inr (hex_color (rgb_of (pixels (pil_image fr) (min (w - 1) sx0, sy0))))"
  using assms(1) getpixel_inside [OF assms(2)]
  by (cases "pixels (pil_image fr) (min (w - 1) sx0, sy0)")
     (simp add: select_color_def rgb_of_def)

lemma run_extract_counted:
  assumes "0 < width im" "0 < height im" "opaque_colors im (sample_coords im) \<noteq> []"
  shows "\<exists>c. run_extract im =
               Inr (hex_color c, \<lparr>pil_image = im, colors = opaque_colors im (sample_coords im)\<rparr>) \<and>
             most_frequent_earliest (opaque_colors im (sample_coords im)) c"
proof -
  let ?fr = "\<lparr>pil_image = im, colors = opaque_colors im (sample_coords im)\<rparr>"
  have "colors ?fr \<noteq> []" using assms(3) by simp
  from select_color_counted [OF this, of "width im" "start_x im" "start_y im"] obtain c where
    s: "select_color (width im) (start_x im) (start_y im) ?fr = Inr (hex_color c)" and
    m: "most_frequent_earliest (opaque_colors im (sample_coords im)) c" by auto
  have "run_extract im = Inr (hex_color c, ?fr)"
    by (simp add: run_extract_def extract_region_def scan_sample [OF assms(1,2)] s)
  with m show ?thesis by blast
qed

lemma run_extract_fallback:
  assumes "0 < width im" "0 < height im" "opaque_colors im (sample_coords im) = []"
  shows "run_extract im =
           Inr (hex_color (rgb_of (pixels im (fallback_xy im))), \<lparr>pil_image = im, colors = []\<rparr>)"
proof -
  let ?fr = "\<lparr>pil_image = im, colors = []\<rparr>"
  have i: "inside (pil_image ?fr) (min (width im - 1) (start_x im), start_y im)"
    using fallback_inside [OF assms(1,2)] by (simp add: fallback_xy_def)
  have "colors ?fr = []" by simp
  from select_color_fallback [OF this i]
  show ?thesis
    by (simp add: run_extract_def extract_region_def scan_sample [OF assms(1,2)] assms(3)
                  fallback_xy_def)
qed

lemma opaque_colors_empty_iff:
  "opaque_colors im cs = [] \<longleftrightarrow> (\<forall>xy\<in>set cs. \<not> 200 < alpha_of (pixels im xy))"
  by (auto simp: opaque_colors_def filter_empty_conv)

lemma opaque_colors_member:
  "c \<in> set (opaque_colors im cs) \<longleftrightarrow>
     (\<exists>xy\<in>set cs. 200 < alpha_of (pixels im xy) \<and> c = rgb_of (pixels im xy))"
  by (auto simp: opaque_colors_def)

lemma opaque_colors_cong:
  assumes "\<forall>xy\<in>set cs. pixels im1 xy = pixels im2 xy"
  shows "opaque_colors im1 cs = opaque_colors im2 cs"
proof -
  have e: "map (pixels im1) cs = map (pixels im2) cs" using assms by simp
  show ?thesis unfolding opaque_colors_def by (simp only: e)
qed

lemma sample_coords_cong:
  assumes "width im1 = width im2" "height im1 = height im2"
  shows "sample_coords im1 = sample_coords im2" "fallback_xy im1 = fallback_xy im2"
  using assms
  by (simp_all add: sample_coords_def fallback_xy_def start_x_def start_y_def sample_width_def
                    sample_height_def)

lemma extract_of_run:
  "run_extract im = Inr (s, fr) \<Longrightarrow> extract_thread_color_from_pattern im = Inr s"
  by (simp add: extract_thread_color_from_pattern_def)

lemma extract_some_color:
  assumes "0 < width im" "0 < height im"
  shows "\<exists>c. extract_thread_color_from_pattern im = Inr (hex_color c)"
proof (cases "opaque_colors im (sample_coords im) = []")
  case True
  from run_extract_fallback [OF assms True]
  have "extract_thread_color_from_pattern im =
          Inr (hex_color (rgb_of (pixels im (fallback_xy im))))"
    by (simp add: extract_thread_color_from_pattern_def)
  then show ?thesis by blast
next
  case False
  from run_extract_counted [OF assms False] obtain c where
    "run_extract im =
       Inr (hex_color c, \<lparr>pil_image = im, colors = opaque_colors im (sample_coords im)\<rparr>)"
    by blast
  then have "extract_thread_color_from_pattern im = Inr (hex_color c)"
    by (simp add: extract_thread_color_from_pattern_def)
  then show ?thesis by blast
qed

subsection \<open>Sizes that are not positive, and empty rectangles\<close>

lemma py_range_first: "1 \<le> n \<Longrightarrow> py_range n = 0 # [1..n - 1]"
  by (simp add: py_range_def upto_rec1)


lemma sample_dims_ge_1: "1 \<le> sample_width im" "1 \<le> sample_height im"
  by (simp_all add: sample_width_def sample_height_def)

lemma start_ge_0: "0 \<le> start_x im" "0 \<le> start_y im"
  by (simp_all add: start_x_def start_y_def)

lemma first_coord_in_sample: "(start_x im, start_y im) \<in> set (sample_coords im)"
  using sample_dims_ge_1 [of im]
  by (simp add: sample_coords_def region_coords_def py_range_first)

lemma py_int_nonpos: "q \<le> 0 \<Longrightarrow> py_int q \<le> 0"
  by (auto simp: py_int_def ceiling_le_zero)

lemma start_x_degenerate: "width im \<le> 0 \<Longrightarrow> start_x im = 0"
proof -
  assume "width im \<le> 0"
  then have "(of_int (width im) * 0.9 :: rat) \<le> 0" by (simp add: mult_le_0_iff)
  from py_int_nonpos [OF this] show ?thesis by (simp add: start_x_def)
qed

lemma start_y_degenerate: "height im \<le> 0 \<Longrightarrow> start_y im = 0"
proof -
  assume "height im \<le> 0"
  then have "(of_int (height im) * 0.05 :: rat) \<le> 0" by (simp add: mult_le_0_iff)
  from py_int_nonpos [OF this] show ?thesis by (simp add: start_y_def)
qed

lemma getpixel_degenerate:
  assumes "\<not> (0 < width im \<and> 0 < height im)"
  shows "getpixel im (start_x im, start_y im) = Inl IndexError"
proof (cases "0 < width im")
  case True
  then have "height im \<le> 0" using assms by simp
  then show ?thesis using start_ge_0 [of im] start_y_degenerate [of im]
    by (simp add: getpixel_def Let_def)
next
  case False
  then show ?thesis using start_ge_0 [of im] start_x_degenerate [of im]
    by (simp add: getpixel_def Let_def)
qed

lemma run_extract_degenerate:
  assumes "\<not> (0 < width im \<and> 0 < height im)"
  shows "run_extract im = Inl IndexError"
  using sample_dims_ge_1 [of im] getpixel_degenerate [OF assms]
  by (simp add: run_extract_def extract_region_def py_range_first loop_body_def)



subsection \<open>The image is only read\<close>





subsection \<open>The result depends on the sampled pixels only\<close>

lemma run_extract_cong:
  assumes "width im1 = width im2" "height im1 = height im2"
    and "\<forall>xy\<in>set (sample_coords im1). pixels im1 xy = pixels im2 xy"
    and "pixels im1 (fallback_xy im1) = pixels im2 (fallback_xy im1)"
  shows "extract_thread_color_from_pattern im1 = extract_thread_color_from_pattern im2"
proof (cases "0 < width im1 \<and> 0 < height im1")
  case False
  then have "\<not> (0 < width im2 \<and> 0 < height im2)" using assms(1,2) by simp
  from run_extract_degenerate [OF False] run_extract_degenerate [OF this]
  show ?thesis by (simp add: extract_thread_color_from_pattern_def)
next
  case True
  then have p1: "0 < width im1" "0 < height im1" and p2: "0 < width im2" "0 < height im2"
    using assms(1,2) by simp_all
  note sc = sample_coords_cong [OF assms(1,2)]
  have cs: "opaque_colors im1 (sample_coords im1) = opaque_colors im2 (sample_coords im2)"
    using opaque_colors_cong [OF assms(3)] sc(1) by simp
  show ?thesis
  proof (cases "opaque_colors im1 (sample_coords im1) = []")
    case True
    then have "opaque_colors im2 (sample_coords im2) = []" using cs by simp
    from run_extract_fallback [OF p1 True] run_extract_fallback [OF p2 this]
    show ?thesis using assms(4) sc(2) by (simp add: extract_thread_color_from_pattern_def)
  next
    case False
    then have ne: "opaque_colors im2 (sample_coords im2) \<noteq> []" using cs by simp
    from run_extract_counted [OF p1 False] obtain c1 where
      r1: "extract_thread_color_from_pattern im1 = Inr (hex_color c1)" and
      m1: "most_frequent_earliest (opaque_colors im1 (sample_coords im1)) c1"
      by (auto simp: extract_thread_color_from_pattern_def)
    from run_extract_counted [OF p2 ne] obtain c2 where
      r2: "extract_thread_color_from_pattern im2 = Inr (hex_color c2)" and
      m2: "most_frequent_earliest (opaque_colors im2 (sample_coords im2)) c2"
      by (auto simp: extract_thread_color_from_pattern_def)
    have "c1 = c2" using most_frequent_earliest_unique m1 m2 cs by metis
    then show ?thesis using r1 r2 by simp
  qed
qed

subsection \<open>Evaluation on concrete images\<close>

lemma sample_coords_eval:
  assumes "0 < width im" "0 < height im"
  shows "sample_coords im =
           region_coords (width im * 9 div 10) (height im div 20)
             (max 1 (width im div 10)) (max 1 (height im div 20))"
  using assms by (simp add: sample_coords_def start_x_eq start_y_eq sample_width_eq sample_height_eq)

lemma region_coords_20: "region_coords 18 1 2 1 = [(18, 1), (19, 1)]"
  by (simp add: region_coords_def py_range_def upto_rec1)

lemma region_coords_1: "region_coords 0 0 1 1 = [(0, 0)]"
  by (simp add: region_coords_def py_range_def upto_rec1)

lemma opaque_1_run:
  "run_extract opaque_1 = Inr (''#010203'', \<lparr>pil_image = opaque_1, colors = [(1, 2, 3)]\<rparr>)"
proof -
  have p: "0 < width opaque_1" "0 < height opaque_1" by (simp_all add: opaque_1_def)
  have sc: "sample_coords opaque_1 = [(0, 0)]"
    by (simp add: sample_coords_eval [OF p]) (simp add: opaque_1_def region_coords_1)
  have oc: "opaque_colors opaque_1 (sample_coords opaque_1) = [(1, 2, 3)]"
    unfolding sc by (simp add: opaque_colors_def opaque_1_def alpha_of_def rgb_of_def)
  show ?thesis
    using scan_sample [OF p]
    by (simp add: run_extract_def extract_region_def oc select_color_def Counter_def
                  most_common_1_def hex_color_digits hex_digit_def hex_digits_def)
qed

section \<open>The properties\<close>

text \<open>
  Throughout, an image has positive width and height where the property is about an image
  that the function can scan; \<open>sample_coords im\<close> lists the coordinates of the sample
  rectangle in the order the loops visit them, and \<open>opaque_colors im (sample_coords im)\<close>
  the colours of its pixels whose alpha exceeds 200, in that order.
\<close>

text \<open>
  \<^bold>\<open>C1.\<close>  When the sample rectangle holds at least one pixel with alpha greater than
  200, the function returns the hex encoding of the colour that is most frequent among
  those pixels; among equally frequent colours the one whose first occurrence in the
  row-major traversal comes earliest wins.  That colour is unique.  (The list
  \<open>sample_coords im\<close> is the row-major traversal: by \<open>region_coords_nth\<close> the coordinate
  \<open>(start_x + sx, start_y + sy)\<close> stands at position \<open>sy * sample_width + sx\<close>.)
  In particular every 100 by 100 image whose sample rectangle is filled with
  \<open>(0, 127, 255, 255)\<close> gives \<^verbatim>\<open>#007FFF\<close>, wherever a transparent block lies outside the
  rectangle.
\<close>

theorem most_frequent_opaque_color:
  "(0 < width im \<and> 0 < height im \<and>
    (\<exists>xy\<in>set (sample_coords im). 200 < alpha_of (pixels im xy)) \<longrightarrow>
      (\<exists>c. extract_thread_color_from_pattern im = Inr (hex_color c) \<and>
           most_frequent_earliest (opaque_colors im (sample_coords im)) c \<and>
           (\<forall>d. most_frequent_earliest (opaque_colors im (sample_coords im)) d \<longrightarrow> d = c))) \<and>
   (width im = 100 \<and> height im = 100 \<and>
    (\<forall>xy\<in>set (sample_coords im). pixels im xy = (0, 127, 255, 255)) \<longrightarrow>
      extract_thread_color_from_pattern im = Inr ''#007FFF'')"
proof -
  have general: "\<exists>c. extract_thread_color_from_pattern im = Inr (hex_color c) \<and>
           most_frequent_earliest (opaque_colors im (sample_coords im)) c \<and>
           (\<forall>d. most_frequent_earliest (opaque_colors im (sample_coords im)) d \<longrightarrow> d = c)"
    if p: "0 < width im" "0 < height im"
      and o: "\<exists>xy\<in>set (sample_coords im). 200 < alpha_of (pixels im xy)" for im
  proof -
    have "opaque_colors im (sample_coords im) \<noteq> []"
      using o by (simp add: opaque_colors_empty_iff)
    from run_extract_counted [OF p this] obtain c where
      r: "extract_thread_color_from_pattern im = Inr (hex_color c)" and
      m: "most_frequent_earliest (opaque_colors im (sample_coords im)) c"
      by (auto simp: extract_thread_color_from_pattern_def)
    have "\<forall>d. most_frequent_earliest (opaque_colors im (sample_coords im)) d \<longrightarrow> d = c"
      using most_frequent_earliest_unique [OF _ m] by blast
    with r m show ?thesis by blast
  qed
  have scenario: "extract_thread_color_from_pattern im = Inr ''#007FFF''"
    if d: "width im = 100" "height im = 100"
      and f: "\<forall>xy\<in>set (sample_coords im). pixels im xy = (0, 127, 255, 255)"
  proof -
    have p: "0 < width im" "0 < height im" using d by simp_all
    have "pixels im (start_x im, start_y im) = (0, 127, 255, 255)"
      using f first_coord_in_sample [of im] by blast
    then have "200 < alpha_of (pixels im (start_x im, start_y im))" by (simp add: alpha_of_def)
    then have "\<exists>xy\<in>set (sample_coords im). 200 < alpha_of (pixels im xy)"
      using first_coord_in_sample [of im] by blast
    from general [OF p this] obtain c where
      r: "extract_thread_color_from_pattern im = Inr (hex_color c)" and
      m: "most_frequent_earliest (opaque_colors im (sample_coords im)) c" by blast
    from m have "c \<in> set (opaque_colors im (sample_coords im))"
      by (simp add: most_frequent_earliest_def)
    then obtain xy where "xy \<in> set (sample_coords im)" "c = rgb_of (pixels im xy)"
      by (auto simp: opaque_colors_member)
    then have "c = (0, 127, 255)" using f by (simp add: rgb_of_def)
    then have "hex_color c = ''#007FFF''"
      by (simp add: hex_color_digits hex_digit_def hex_digits_def)
    with r show ?thesis by simp
  qed
  from general scenario show ?thesis by blast
qed

text \<open>
  One such image: the transparent block covers the pixels \<open>20 \<le> x < 30\<close>, \<open>40 \<le> y < 50\<close>, and
  the sample rectangle is \<open>90 \<le> x < 100\<close>, \<open>5 \<le> y < 10\<close>.
\<close>

theorem most_frequent_opaque_color_witness:
  "width blue_100 = 100 \<and> height blue_100 = 100 \<and>
   set (sample_coords blue_100) = {(x, y). 90 \<le> x \<and> x < 100 \<and> 5 \<le> y \<and> y < 10} \<and>
   pixels blue_100 (20, 40) = (0, 127, 255, 0) \<and>
   200 < alpha_of (pixels blue_100 (90, 5)) \<and>
   extract_thread_color_from_pattern blue_100 = Inr ''#007FFF''"
proof -
  have d: "width blue_100 = 100" "height blue_100 = 100" by (simp_all add: blue_100_def)
  have p: "0 < width blue_100" "0 < height blue_100" by (simp_all add: blue_100_def)
  have s: "set (sample_coords blue_100) = {(x, y). 90 \<le> x \<and> x < 100 \<and> 5 \<le> y \<and> y < 10}"
    by (simp add: sample_coords_eval [OF p] d set_region_coords)
  have f: "\<forall>xy\<in>set (sample_coords blue_100). pixels blue_100 xy = (0, 127, 255, 255)"
    unfolding s by (auto simp: blue_100_def)
  have b: "pixels blue_100 (20, 40) = (0, 127, 255, 0)" by (simp add: blue_100_def)
  have a: "200 < alpha_of (pixels blue_100 (90, 5))" by (simp add: blue_100_def alpha_of_def)
  from most_frequent_opaque_color [of blue_100] d f
  have "extract_thread_color_from_pattern blue_100 = Inr ''#007FFF''" by blast
  with d s b a show ?thesis by simp
qed

text \<open>
  \<^bold>\<open>C2.\<close>  When no pixel of the sample rectangle has alpha greater than 200, the
  function returns the hex encoding of the red, green and blue channels of the pixel at
  \<open>(min (width - 1) start_x, start_y)\<close>, whatever its alpha.  In particular every fully
  transparent 50 by 50 image whose pixel \<open>(45, 2)\<close> is \<open>(10, 20, 30, 0)\<close> gives
  \<^verbatim>\<open>#0A141E\<close>.
\<close>

theorem fallback_pixel_color:
  "(0 < width im \<and> 0 < height im \<and>
    (\<forall>xy\<in>set (sample_coords im). \<not> 200 < alpha_of (pixels im xy)) \<longrightarrow>
      extract_thread_color_from_pattern im =
        Inr (hex_color (rgb_of (pixels im (min (width im - 1) (start_x im), start_y im))))) \<and>
   (width im = 50 \<and> height im = 50 \<and> (\<forall>xy. inside im xy \<longrightarrow> alpha_of (pixels im xy) = 0) \<and>
    pixels im (45, 2) = (10, 20, 30, 0) \<longrightarrow>
      extract_thread_color_from_pattern im = Inr ''#0A141E'')"
proof -
  have general: "extract_thread_color_from_pattern im =
        Inr (hex_color (rgb_of (pixels im (min (width im - 1) (start_x im), start_y im))))"
    if p: "0 < width im" "0 < height im"
      and t: "\<forall>xy\<in>set (sample_coords im). \<not> 200 < alpha_of (pixels im xy)" for im
  proof -
    have "opaque_colors im (sample_coords im) = []"
      using t by (simp add: opaque_colors_empty_iff)
    from run_extract_fallback [OF p this] show ?thesis
      by (simp add: extract_thread_color_from_pattern_def fallback_xy_def)
  qed
  have scenario: "extract_thread_color_from_pattern im = Inr ''#0A141E''"
    if d: "width im = 50" "height im = 50"
      and t: "\<forall>xy. inside im xy \<longrightarrow> alpha_of (pixels im xy) = 0"
      and v: "pixels im (45, 2) = (10, 20, 30, 0)"
  proof -
    have p: "0 < width im" "0 < height im" using d by simp_all
    have "\<forall>xy\<in>set (sample_coords im). \<not> 200 < alpha_of (pixels im xy)"
      using sample_coords_inside [OF p] t by fastforce
    from general [OF p this]
    have "extract_thread_color_from_pattern im = Inr (hex_color (rgb_of (pixels im (45, 2))))"
      using d by (simp add: start_x_eq start_y_eq)
    then show ?thesis
      by (simp add: v rgb_of_def hex_color_digits hex_digit_def hex_digits_def)
  qed
  from general scenario show ?thesis by blast
qed

text \<open>One such image: the fallback pixel is \<open>(45, 2)\<close> and the result is \<^verbatim>\<open>#0A141E\<close>.\<close>

theorem fallback_pixel_color_witness:
  "width clear_50 = 50 \<and> height clear_50 = 50 \<and>
   pixels clear_50 (45, 2) = (10, 20, 30, 0) \<and>
   opaque_colors clear_50 (sample_coords clear_50) = [] \<and>
   (min (width clear_50 - 1) (start_x clear_50), start_y clear_50) = (45, 2) \<and>
   hex_color (rgb_of (pixels clear_50 (45, 2))) = ''#0A141E'' \<and>
   extract_thread_color_from_pattern clear_50 = Inr ''#0A141E''"
proof -
  have d: "width clear_50 = 50" "height clear_50 = 50" "pixels clear_50 (45, 2) = (10, 20, 30, 0)"
    by (simp_all add: clear_50_def)
  have t: "\<forall>xy. inside clear_50 xy \<longrightarrow> alpha_of (pixels clear_50 xy) = 0"
    by (simp add: clear_50_def alpha_of_def)
  have o: "opaque_colors clear_50 (sample_coords clear_50) = []"
    by (simp add: opaque_colors_empty_iff clear_50_def alpha_of_def)
  have f: "(min (width clear_50 - 1) (start_x clear_50), start_y clear_50) = (45, 2)"
    by (simp add: start_x_eq start_y_eq clear_50_def)
  have h: "hex_color (rgb_of (pixels clear_50 (45, 2))) = ''#0A141E''"
    by (simp add: d rgb_of_def hex_color_digits hex_digit_def hex_digits_def)
  from fallback_pixel_color [of clear_50] d t
  have "extract_thread_color_from_pattern clear_50 = Inr ''#0A141E''" by blast
  with d o f h show ?thesis by simp
qed

text \<open>
  \<^bold>\<open>C3.\<close>  For an image of positive width and height the sample rectangle is
  \<open>start_x = \<lfloor>0.9 * width\<rfloor>\<close>, \<open>sample_width = max 1 \<lfloor>0.1 * width\<rfloor>\<close>,
  \<open>start_y = \<lfloor>0.05 * height\<rfloor>\<close>, \<open>sample_height = max 1 \<lfloor>0.05 * height\<rfloor>\<close>; it has at
  least one pixel in each dimension and lies within the image, so every pixel access of
  the scan and the access of the fallback succeed, and the function returns a string
  rather than raising \<^verbatim>\<open>IndexError\<close>.
\<close>

theorem sample_rectangle_in_bounds:
  assumes "0 < width im" "0 < height im"
  shows "start_x im = \<lfloor>0.9 * rat_of_int (width im)\<rfloor> \<and>
         sample_width im = max 1 \<lfloor>0.1 * rat_of_int (width im)\<rfloor> \<and>
         start_y im = \<lfloor>0.05 * rat_of_int (height im)\<rfloor> \<and>
         sample_height im = max 1 \<lfloor>0.05 * rat_of_int (height im)\<rfloor> \<and>
         1 \<le> sample_width im \<and> 1 \<le> sample_height im \<and>
         0 \<le> start_x im \<and> start_x im + sample_width im \<le> width im \<and>
         0 \<le> start_y im \<and> start_y im + sample_height im \<le> height im \<and>
         (\<forall>xy\<in>set (sample_coords im). inside im xy \<and> getpixel im xy = Inr (pixels im xy)) \<and>
         inside im (min (width im - 1) (start_x im), start_y im) \<and>
         getpixel im (min (width im - 1) (start_x im), start_y im) =
           Inr (pixels im (min (width im - 1) (start_x im), start_y im)) \<and>
         (\<exists>hex. extract_thread_color_from_pattern im = Inr hex)"
proof -
  have w: "0 \<le> rat_of_int (width im) * 0.9" "0 \<le> rat_of_int (width im) * 0.1"
    and h: "0 \<le> rat_of_int (height im) * 0.05"
    using assms by simp_all
  have f: "start_x im = \<lfloor>0.9 * rat_of_int (width im)\<rfloor>"
      "sample_width im = max 1 \<lfloor>0.1 * rat_of_int (width im)\<rfloor>"
      "start_y im = \<lfloor>0.05 * rat_of_int (height im)\<rfloor>"
      "sample_height im = max 1 \<lfloor>0.05 * rat_of_int (height im)\<rfloor>"
    using w h
    by (simp_all add: start_x_def sample_width_def start_y_def sample_height_def py_int_def
                      mult.commute)
  note bx = rect_x_bounds [OF assms(1)] and by' = rect_y_bounds [OF assms(2)]
  have i: "\<forall>xy\<in>set (sample_coords im). inside im xy \<and> getpixel im xy = Inr (pixels im xy)"
    using sample_coords_inside [OF assms] getpixel_inside [of im] by auto
  have fi: "inside im (min (width im - 1) (start_x im), start_y im)"
    using fallback_inside [OF assms] by (simp add: fallback_xy_def)
  have r: "\<exists>hex. extract_thread_color_from_pattern im = Inr hex"
  proof (cases "opaque_colors im (sample_coords im) = []")
    case True
    from run_extract_fallback [OF assms True] show ?thesis
      by (simp add: extract_thread_color_from_pattern_def)
  next
    case False
    from run_extract_counted [OF assms False] show ?thesis
      by (auto simp: extract_thread_color_from_pattern_def)
  qed
  from f bx by' i fi getpixel_inside [OF fi] r show ?thesis by simp
qed

text \<open>A 50 by 50 image: the rectangle starts at \<open>(45, 2)\<close> and is 5 wide and 2 high.\<close>

theorem sample_rectangle_in_bounds_witness:
  "0 < width clear_50 \<and> 0 < height clear_50 \<and>
   start_x clear_50 = 45 \<and> sample_width clear_50 = 5 \<and>
   start_y clear_50 = 2 \<and> sample_height clear_50 = 2 \<and>
   start_x clear_50 + sample_width clear_50 \<le> width clear_50 \<and>
   start_y clear_50 + sample_height clear_50 \<le> height clear_50 \<and>
   (\<exists>hex. extract_thread_color_from_pattern clear_50 = Inr hex)"
proof -
  have p: "0 < width clear_50" "0 < height clear_50" by (simp_all add: clear_50_def)
  have v: "start_x clear_50 = 45" "sample_width clear_50 = 5"
      "start_y clear_50 = 2" "sample_height clear_50 = 2"
    by (simp_all add: start_x_eq start_y_eq sample_width_eq sample_height_eq clear_50_def)
  from sample_rectangle_in_bounds [OF p] v p show ?thesis by simp
qed





text \<open>
  \<^bold>\<open>C5.\<close>  For an image of positive width and height the function returns, on either
  branch, a string of exactly seven characters: \<open>#\<close> followed by two upper-case
  hexadecimal digits for each of the three channels, the high digit first (a zero when
  the channel is below 16).
\<close>

theorem output_format:
  assumes "0 < width im" "0 < height im"
  shows "\<exists>r g b. extract_thread_color_from_pattern im = Inr (hex_color (r, g, b)) \<and>
          hex_color (r, g, b) =
            [CHR ''#'', hex_digit (unat r div 16), hex_digit (unat r mod 16),
             hex_digit (unat g div 16), hex_digit (unat g mod 16),
             hex_digit (unat b div 16), hex_digit (unat b mod 16)] \<and>
          is_hex_color (hex_color (r, g, b))"
proof -
  from extract_some_color [OF assms]
  obtain c where r: "extract_thread_color_from_pattern im = Inr (hex_color c)" by blast
  obtain r g b where c: "c = (r, g, b)" by (cases c)
  have "extract_thread_color_from_pattern im = Inr (hex_color (r, g, b)) \<and>
          hex_color (r, g, b) =
            [CHR ''#'', hex_digit (unat r div 16), hex_digit (unat r mod 16),
             hex_digit (unat g div 16), hex_digit (unat g mod 16),
             hex_digit (unat b div 16), hex_digit (unat b mod 16)] \<and>
          is_hex_color (hex_color (r, g, b))"
    using r c is_hex_color_hex_color [of c] hex_color_digits [of r g b] by simp
  then show ?thesis by (intro exI)
qed

theorem output_format_witness:
  "0 < width opaque_1 \<and> 0 < height opaque_1 \<and>
   extract_thread_color_from_pattern opaque_1 = Inr ''#010203'' \<and>
   is_hex_color ''#010203'' \<and> length ''#010203'' = 7"
proof -
  have p: "0 < width opaque_1" "0 < height opaque_1" by (simp_all add: opaque_1_def)
  have e: "extract_thread_color_from_pattern opaque_1 = Inr ''#010203''"
    by (rule extract_of_run [OF opaque_1_run])
  from output_format [OF p] obtain r g b where
    "extract_thread_color_from_pattern opaque_1 = Inr (hex_color (r, g, b))"
    "is_hex_color (hex_color (r, g, b))" by blast
  with e have "is_hex_color ''#010203''" by simp
  with p e show ?thesis by simp
qed

text \<open>
  \<^bold>\<open>C6.\<close>  In a 20 by 20 image the sample rectangle is the two pixels \<open>(18, 1)\<close> and
  \<open>(19, 1)\<close>.  When its pixels, in row-major order, are some number of red pixels
  \<open>(255, 0, 0, 255)\<close> followed by the same number of blue pixels \<open>(0, 0, 255, 255)\<close>, the
  function returns \<^verbatim>\<open>#FF0000\<close>.
\<close>

theorem red_before_blue_tie:
  assumes "width im = 20" "height im = 20" "0 < n"
    and "map (pixels im) (sample_coords im) =
           replicate n (255, 0, 0, 255) @ replicate n (0, 0, 255, 255)"
  shows "sample_coords im = [(18, 1), (19, 1)] \<and>
         opaque_colors im (sample_coords im) = [(255, 0, 0), (0, 0, 255)] \<and>
         extract_thread_color_from_pattern im = Inr ''#FF0000''"
proof -
  have p: "0 < width im" "0 < height im" using assms(1,2) by simp_all
  have sc: "sample_coords im = [(18, 1), (19, 1)]"
    using assms(1,2) by (simp add: sample_coords_eval [OF p] region_coords_20)
  have "length (map (pixels im) (sample_coords im)) = 2" by (simp add: sc)
  then have "n = 1" using assms(4) by simp
  then have px: "pixels im (18, 1) = (255, 0, 0, 255)" "pixels im (19, 1) = (0, 0, 255, 255)"
    using assms(4) sc by simp_all
  have oc: "opaque_colors im (sample_coords im) = [(255, 0, 0), (0, 0, 255)]"
    by (simp add: opaque_colors_def sc px alpha_of_def rgb_of_def)
  have "run_extract im =
          Inr (''#FF0000'', \<lparr>pil_image = im, colors = [(255, 0, 0), (0, 0, 255)]\<rparr>)"
    using scan_sample [OF p]
    by (simp add: run_extract_def extract_region_def oc select_color_def Counter_def
                  most_common_1_def hex_color_digits hex_digit_def hex_digits_def)
  then have "extract_thread_color_from_pattern im = Inr ''#FF0000''" by (rule extract_of_run)
  with sc oc show ?thesis by simp
qed

theorem red_before_blue_tie_witness:
  "width tie_20 = 20 \<and> height tie_20 = 20 \<and>
   map (pixels tie_20) [(18, 1), (19, 1)] = [(255, 0, 0, 255), (0, 0, 255, 255)] \<and>
   sample_coords tie_20 = [(18, 1), (19, 1)] \<and>
   extract_thread_color_from_pattern tie_20 = Inr ''#FF0000''"
proof -
  have d: "width tie_20 = 20" "height tie_20 = 20" by (simp_all add: tie_20_def)
  have p: "0 < width tie_20" "0 < height tie_20" by (simp_all add: tie_20_def)
  have sc: "sample_coords tie_20 = [(18, 1), (19, 1)]"
    by (simp add: sample_coords_eval [OF p] d region_coords_20)
  have m: "map (pixels tie_20) [(18, 1), (19, 1)] = [(255, 0, 0, 255), (0, 0, 255, 255)]"
    by (simp add: tie_20_def)
  have "map (pixels tie_20) (sample_coords tie_20) =
          replicate 1 (255, 0, 0, 255) @ replicate 1 (0, 0, 255, 255)"
    unfolding sc m by simp
  from red_before_blue_tie [OF d _ this] d m show ?thesis by simp
qed

text \<open>
  \<^bold>\<open>C7\<close> claims that every 1 by 1 image gets its result from the fallback branch.  A
  1 by 1 image whose pixel has alpha 255 does not: the scan collects the pixel's colour, the
  list \<^verbatim>\<open>colors\<close> is not empty, and the result comes from the frequency count.
\<close>

theorem single_pixel_fallback_counterexample:
  "width opaque_1 = 1 \<and> height opaque_1 = 1 \<and>
   run_extract opaque_1 = Inr (''#010203'', \<lparr>pil_image = opaque_1, colors = [(1, 2, 3)]\<rparr>)"
  using opaque_1_run by (simp add: opaque_1_def)

text \<open>
  \<^bold>\<open>C7, as the code has it.\<close>  For every 1 by 1 image the sample rectangle is the
  single pixel \<open>(0, 0)\<close>, the function returns without an exception, and the result is
  the hex encoding of that pixel's colour.  The fallback branch produces it exactly when
  the pixel's alpha is at most 200 (the final list \<^verbatim>\<open>colors\<close> is empty); otherwise the
  frequency count over the one collected colour does.
\<close>

theorem single_pixel_image:
  assumes "width im = 1" "height im = 1"
  shows "sample_coords im = [(0, 0)] \<and>
         extract_thread_color_from_pattern im = Inr (hex_color (rgb_of (pixels im (0, 0)))) \<and>
         run_extract im =
           Inr (hex_color (rgb_of (pixels im (0, 0))),
                \<lparr>pil_image = im,
                 colors = (if 200 < alpha_of (pixels im (0, 0))
                           then [rgb_of (pixels im (0, 0))] else [])\<rparr>)"
proof -
  have p: "0 < width im" "0 < height im" using assms by simp_all
  have sc: "sample_coords im = [(0, 0)]"
    using assms by (simp add: sample_coords_eval [OF p] region_coords_1)
  have oc: "opaque_colors im (sample_coords im) =
              (if 200 < alpha_of (pixels im (0, 0)) then [rgb_of (pixels im (0, 0))] else [])"
    by (simp add: sc opaque_colors_def)
  have fb: "fallback_xy im = (0, 0)"
    using assms by (simp add: fallback_xy_def start_x_eq start_y_eq)
  have r: "run_extract im =
           Inr (hex_color (rgb_of (pixels im (0, 0))),
                \<lparr>pil_image = im,
                 colors = (if 200 < alpha_of (pixels im (0, 0))
                           then [rgb_of (pixels im (0, 0))] else [])\<rparr>)"
  proof (cases "200 < alpha_of (pixels im (0, 0))")
    case True
    then have o: "opaque_colors im (sample_coords im) = [rgb_of (pixels im (0, 0))]"
      using oc by simp
    show ?thesis using scan_sample [OF p] True
      by (simp add: run_extract_def extract_region_def o select_color_def Counter_def
                    most_common_1_def)
  next
    case False
    then have "opaque_colors im (sample_coords im) = []" using oc by simp
    from run_extract_fallback [OF p this] show ?thesis using False fb by simp
  qed
  from sc r extract_of_run [OF r] show ?thesis by simp
qed

theorem single_pixel_image_witness:
  "width clear_1 = 1 \<and> height clear_1 = 1 \<and> \<not> 200 < alpha_of (pixels clear_1 (0, 0)) \<and>
   sample_coords clear_1 = [(0, 0)] \<and>
   extract_thread_color_from_pattern clear_1 = Inr ''#010203'' \<and>
   run_extract clear_1 = Inr (''#010203'', \<lparr>pil_image = clear_1, colors = []\<rparr>)"
proof -
  have d: "width clear_1 = 1" "height clear_1 = 1" by (simp_all add: clear_1_def)
  have a: "\<not> 200 < alpha_of (pixels clear_1 (0, 0))" by (simp add: clear_1_def alpha_of_def)
  have h: "hex_color (rgb_of (pixels clear_1 (0, 0))) = ''#010203''"
    by (simp add: clear_1_def rgb_of_def hex_color_digits hex_digit_def hex_digits_def)
  from single_pixel_image [OF d] d a h show ?thesis by simp
qed




text \<open>
  \<^bold>\<open>C9.\<close>  For an image of positive width and height, the colour that the returned
  string encodes is the colour of a pixel of the image: of a pixel of the sample rectangle
  with alpha greater than 200, or of the fallback pixel.
\<close>

theorem color_occurs_in_image:
  assumes "0 < width im" "0 < height im"
  shows "\<exists>xy hex. extract_thread_color_from_pattern im = Inr hex \<and>
           inside im xy \<and>
           decode_hex_color hex = Some (rgb_of (pixels im xy)) \<and>
           (xy \<in> set (sample_coords im) \<and> 200 < alpha_of (pixels im xy) \<or>
            xy = (min (width im - 1) (start_x im), start_y im))"
proof (cases "opaque_colors im (sample_coords im) = []")
  case True
  let ?xy = "(min (width im - 1) (start_x im), start_y im)"
  from run_extract_fallback [OF assms True]
  have "extract_thread_color_from_pattern im = Inr (hex_color (rgb_of (pixels im ?xy)))"
    by (simp add: extract_thread_color_from_pattern_def fallback_xy_def)
  moreover have "inside im ?xy" using fallback_inside [OF assms] by (simp add: fallback_xy_def)
  moreover have "decode_hex_color (hex_color (rgb_of (pixels im ?xy))) = Some (rgb_of (pixels im ?xy))"
    by (rule decode_hex_color_hex_color)
  ultimately show ?thesis by blast
next
  case False
  from run_extract_counted [OF assms False] obtain c where
    r: "run_extract im =
         Inr (hex_color c, \<lparr>pil_image = im, colors = opaque_colors im (sample_coords im)\<rparr>)" and
    m: "most_frequent_earliest (opaque_colors im (sample_coords im)) c" by blast
  from m have "c \<in> set (opaque_colors im (sample_coords im))"
    by (simp add: most_frequent_earliest_def)
  then obtain xy where xy: "xy \<in> set (sample_coords im)" "200 < alpha_of (pixels im xy)"
    "c = rgb_of (pixels im xy)" by (auto simp: opaque_colors_member)
  have "extract_thread_color_from_pattern im = Inr (hex_color (rgb_of (pixels im xy)))"
    using extract_of_run [OF r] xy(3) by simp
  moreover have "inside im xy" using sample_coords_inside [OF assms] xy(1) by blast
  moreover have "decode_hex_color (hex_color (rgb_of (pixels im xy))) = Some (rgb_of (pixels im xy))"
    by (rule decode_hex_color_hex_color)
  ultimately show ?thesis using xy(1,2) by blast
qed

theorem color_occurs_in_image_witness:
  "0 < width opaque_1 \<and> 0 < height opaque_1 \<and>
   extract_thread_color_from_pattern opaque_1 = Inr ''#010203'' \<and>
   decode_hex_color ''#010203'' = Some (1, 2, 3) \<and>
   (\<exists>xy. inside opaque_1 xy \<and> rgb_of (pixels opaque_1 xy) = (1, 2, 3))"
proof -
  have p: "0 < width opaque_1" "0 < height opaque_1" by (simp_all add: opaque_1_def)
  have e: "extract_thread_color_from_pattern opaque_1 = Inr ''#010203''"
    by (rule extract_of_run [OF opaque_1_run])
  have d: "decode_hex_color ''#010203'' = Some (1, 2, 3)"
    by (simp add: decode_hex_color_def hex_value_def hex_digits_def)
  from color_occurs_in_image [OF p] obtain xy hex where
    "extract_thread_color_from_pattern opaque_1 = Inr hex" "inside opaque_1 xy"
    "decode_hex_color hex = Some (rgb_of (pixels opaque_1 xy))" by blast
  with e d have "inside opaque_1 xy \<and> rgb_of (pixels opaque_1 xy) = (1, 2, 3)" by simp
  then have "\<exists>xy. inside opaque_1 xy \<and> rgb_of (pixels opaque_1 xy) = (1, 2, 3)" by blast
  with p e d show ?thesis by simp
qed

text \<open>
  \<^bold>\<open>C10.\<close>  Two images of equal width and height that agree on the pixels of the sample
  rectangle and on the fallback pixel give the same result, whatever their other pixels
  are.
\<close>

theorem depends_only_on_sample:
  assumes "width im1 = width im2" "height im1 = height im2"
    and "\<forall>xy\<in>set (sample_coords im1). pixels im1 xy = pixels im2 xy"
    and "pixels im1 (min (width im1 - 1) (start_x im1), start_y im1) =
         pixels im2 (min (width im1 - 1) (start_x im1), start_y im1)"
  shows "extract_thread_color_from_pattern im1 = extract_thread_color_from_pattern im2"
  using run_extract_cong [OF assms(1,2,3)] assms(4) by (simp add: fallback_xy_def)

text \<open>
  Two 20 by 20 images that agree on the sample rectangle and differ at the pixel
  \<open>(0, 0)\<close>.
\<close>

theorem depends_only_on_sample_witness:
  "width tie_20 = width tie_20_other \<and> height tie_20 = height tie_20_other \<and>
   inside tie_20 (0, 0) \<and> pixels tie_20 (0, 0) \<noteq> pixels tie_20_other (0, 0) \<and>
   sample_coords tie_20 = [(18, 1), (19, 1)] \<and>
   map (pixels tie_20) [(18, 1), (19, 1)] = map (pixels tie_20_other) [(18, 1), (19, 1)] \<and>
   extract_thread_color_from_pattern tie_20 = extract_thread_color_from_pattern tie_20_other"
proof -
  have d: "width tie_20 = width tie_20_other" "height tie_20 = height tie_20_other"
    by (simp_all add: tie_20_def tie_20_other_def)
  have p: "0 < width tie_20" "0 < height tie_20" by (simp_all add: tie_20_def)
  have i: "inside tie_20 (0, 0)" "pixels tie_20 (0, 0) \<noteq> pixels tie_20_other (0, 0)"
    by (simp_all add: inside_def tie_20_def tie_20_other_def)
  have sc: "sample_coords tie_20 = [(18, 1), (19, 1)]"
    by (simp add: sample_coords_eval [OF p]) (simp add: tie_20_def region_coords_20)
  have m: "map (pixels tie_20) [(18, 1), (19, 1)] = map (pixels tie_20_other) [(18, 1), (19, 1)]"
    by (simp add: tie_20_def tie_20_other_def)
  have a: "\<forall>xy\<in>set (sample_coords tie_20). pixels tie_20 xy = pixels tie_20_other xy"
    unfolding sc using m by simp
  have f: "pixels tie_20 (min (width tie_20 - 1) (start_x tie_20), start_y tie_20) =
           pixels tie_20_other (min (width tie_20 - 1) (start_x tie_20), start_y tie_20)"
    by (simp add: start_x_eq start_y_eq tie_20_def tie_20_other_def)
  from depends_only_on_sample [OF d a f] d i sc m show ?thesis by simp
qed

end
